theory Spec2Isabelle
  imports Main
begin

section \<open>Python values\<close>

text \<open>
  A Python \<open>str\<close> is a sequence of Unicode code points, so it is modelled as a list of
  natural numbers (HOL's \<open>char\<close> has 8 bits and cannot hold U+202F). \<open>ustr\<close> turns
  a HOL string literal into such a sequence, one code point per character.
\<close>

type_synonym pystr = "nat list"

definition ustr :: "string \<Rightarrow> pystr" where
  "ustr s = map of_char s"

text \<open>
  The values \<open>json.loads\<close> can return, which are also the values the argument of
  \<open>parse_openai_response\<close> can be. A \<open>float\<close> is kept as the literal it was read
  from. A \<open>dict\<close> is an association list in insertion order.
\<close>

datatype pyval =
    PNone
  | PBool bool
  | PInt int
  | PFloat pystr
  | PStr pystr
  | PList "pyval list"
  | PDict "(pystr \<times> pyval) list"

text \<open>\<open>type(v).__name__\<close>\<close>

fun type_name :: "pyval \<Rightarrow> pystr" where
  "type_name PNone = ustr ''NoneType''"
| "type_name (PBool _) = ustr ''bool''"
| "type_name (PInt _) = ustr ''int''"
| "type_name (PFloat _) = ustr ''float''"
| "type_name (PStr _) = ustr ''str''"
| "type_name (PList _) = ustr ''list''"
| "type_name (PDict _) = ustr ''dict''"

section \<open>String operations used by the source\<close>

text \<open>\<open>s.replace(old, new)\<close> for one-character \<open>old\<close> and \<open>new\<close>.\<close>

definition replace :: "pystr \<Rightarrow> nat \<Rightarrow> nat \<Rightarrow> pystr" where
  "replace s old new = map (\<lambda>c. if c = old then new else c) s"

text \<open>\<open>s.startswith(p)\<close>\<close>

definition startswith :: "pystr \<Rightarrow> pystr \<Rightarrow> bool" where
  "startswith s p = (take (length p) s = p)"

text \<open>
  The slice \<open>s[a:-b]\<close> for literal \<open>a\<close> and \<open>b > 0\<close>: from index \<open>a\<close> up to, not
  including, index \<open>len(s) - b\<close>; empty when the bounds cross. Slices never raise.
\<close>

definition slice :: "pystr \<Rightarrow> nat \<Rightarrow> nat \<Rightarrow> pystr" where
  "slice s a b = take ((length s - b) - a) (drop a s)"

text \<open>
  \<open>str.isspace\<close> on one code point: the characters \<open>str.strip()\<close> removes.
\<close>

definition isspace :: "nat \<Rightarrow> bool" where
  "isspace c = ((9 \<le> c \<and> c \<le> 13) \<or> (28 \<le> c \<and> c \<le> 32) \<or> c = 133 \<or> c = 160
     \<or> c = 5760 \<or> (8192 \<le> c \<and> c \<le> 8202) \<or> c = 8232 \<or> c = 8233 \<or> c = 8239
     \<or> c = 8287 \<or> c = 12288)"

definition strip :: "pystr \<Rightarrow> pystr" where
  "strip s = rev (dropWhile isspace (rev (dropWhile isspace s)))"

section \<open>The response normalizer\<close>

definition NNBSP :: nat where "NNBSP = 8239"   \<comment> \<open>U+202F, narrow no-break space\<close>
definition SPACE :: nat where "SPACE = 32"

definition fence_json :: pystr where
  "fence_json = ustr ''```json\<newline>''"

definition fence_plain :: pystr where
  "fence_plain = ustr ''```\<newline>''"

text \<open>
  Lines 40 to 50: the value of the variable \<open>description\<close> when \<open>json.loads\<close> is
  called on it.
\<close>

definition cleaned :: "pystr \<Rightarrow> pystr" where
  "cleaned description =
     (let d1 = replace description NNBSP SPACE;
          d2 = (if startswith d1 fence_json then slice d1 8 4
                else if startswith d1 fence_plain then slice d1 4 4
                else d1)
      in strip d2)"

text \<open>
  \<open>parse_openai_response\<close>. The decoder \<open>json.loads\<close> is a parameter: \<open>loads d\<close> is
  \<open>Inr v\<close> when it returns \<open>v\<close> and \<open>Inl m\<close> when it raises an exception \<open>e\<close> with
  \<open>str(e) = m\<close>. The result is the pair of what the call printed and its outcome, where
  \<open>Inl m\<close> stands for \<open>raise Exception(m)\<close>. The line
  \<open>print(f"Raw description: {description}")\<close> is recorded by the value that the variable
  \<open>description\<close> holds when it runs.

  A value that is neither a \<open>dict\<close> nor a \<open>str\<close> has no method \<open>replace\<close>: the
  \<open>AttributeError\<close> of line 41 is caught by the handler of line 54 like any other.
\<close>

definition parse_error :: "pystr \<Rightarrow> pystr" where
  "parse_error m = ustr ''Error parsing JSON response: '' @ m"

definition no_replace :: "pyval \<Rightarrow> pystr" where
  "no_replace v =
     [39] @ type_name v @ [39] @ ustr '' object has no attribute '' @ [39] @ ustr ''replace'' @ [39]"

fun parse_openai_response ::
  "(pystr \<Rightarrow> pystr + pyval) \<Rightarrow> pyval \<Rightarrow> pyval list \<times> (pystr + pyval)" where
  "parse_openai_response loads (PDict d) = ([], Inr (PDict d))"
| "parse_openai_response loads (PStr s) =
     (case loads (cleaned s) of
        Inr v \<Rightarrow> ([], Inr v)
      | Inl m \<Rightarrow> ([PStr (cleaned s)], Inl (parse_error m)))"
| "parse_openai_response loads v = ([v], Inl (parse_error (no_replace v)))"

section \<open>The analysis job\<close>

text \<open>
  The file system is a flat map from path to content; a path is an opaque key. A file
  holds either raw bytes or, for a file written by \<open>json.dump\<close>, the dictionary that was
  serialised into it.
\<close>

datatype content = Blob "nat list" | Envelope "(pystr \<times> pyval) list"

type_synonym files = "pystr \<rightharpoonup> content"

text \<open>
  What the hosted model does with one request. The request is fixed by the image file
  (the prompt is a constant), so the reply is a function of the file's content:
  \<open>client.chat.completions.create\<close> raises \<open>e\<close> with \<open>str(e) = m\<close>, or it returns a
  response on which \<open>response.choices[0].message.content\<close> raises, or that expression is
  a text.
\<close>

datatype reply = Raised pystr | NoContent pystr | Content pystr

record env =
  client_create :: "content \<Rightarrow> reply"
  time_strftime :: pystr   \<comment> \<open>\<open>time.strftime("%Y-%m-%d %H:%M:%S")\<close> when the job calls it\<close>
  open_error :: "pystr \<Rightarrow> pystr"   \<comment> \<open>\<open>str(e)\<close> of the \<open>OSError\<close> of opening a missing path\<close>



text \<open>\<open>os.path.join(a, b)\<close> of \<open>posixpath\<close>\<close>

definition endswith :: "pystr \<Rightarrow> pystr \<Rightarrow> bool" where
  "endswith s p = (drop (length s - length p) s = p)"

definition path_join :: "pystr \<Rightarrow> pystr \<Rightarrow> pystr" where
  "path_join a b =
     (if startswith b (ustr ''/'') then b
      else if a = [] \<or> endswith a (ustr ''/'') then a @ b
      else a @ ustr ''/'' @ b)"






definition analysis_path :: "pystr \<Rightarrow> pystr" where
  "analysis_path filename = path_join (ustr ''processed'') (filename @ ustr ''_analysis.json'')"






text \<open>An environment and a file system to run the job on: one uploaded image.\<close>

definition example_env :: "reply \<Rightarrow> env" where
  "example_env r =
     \<lparr>client_create = (\<lambda>_. r),
      time_strftime = ustr ''2024-05-01 10:00:00'',
      open_error = (\<lambda>_. ustr ''[Errno 2] No such file or directory'')\<rparr>"

definition example_files :: files where
  "example_files = [ustr ''uploads/x.jpg'' \<mapsto> Blob [255, 216, 255]]"


text \<open>
  A closing fence on a line of its own: the four characters that the slices of lines 45 and
  47 drop from the end of a fenced text.
\<close>

definition fence_close :: pystr where
  "fence_close = ustr ''\<newline>```''"

section \<open>The decoder\<close>

text \<open>
  \<open>json.loads\<close> is the standard library's, not this repository's, so the normalizer
  takes it as a parameter. \<open>json_loads\<close> below is the decoder that CPython 3.11 runs
  for a \<open>str\<close> with the default options, written as a function: it instantiates the
  parameter wherever a concrete input is evaluated. It reads the text from left to right;
  \<open>idx\<close> is the index of the next character and \<open>rest\<close> the text from there on. Three
  things are left out: a float is kept as its literal, and the interpreter's limits on
  recursion depth and on the number of digits of an integer are not modelled. The
  recursion runs on a counter that starts above twice the length of the text, which it
  never uses up (\<open>json_loads_counter\<close> below).
\<close>

abbreviation (input) ch :: "char \<Rightarrow> nat" where
  "ch c \<equiv> of_char c"

datatype 'a scan = Done 'a nat pystr | Stop nat | Error pystr nat | OutOfFuel

definition is_ws :: "nat \<Rightarrow> bool" where
  "is_ws c = (c = 32 \<or> c = 9 \<or> c = 10 \<or> c = 13)"

definition is_digit :: "nat \<Rightarrow> bool" where
  "is_digit c = (48 \<le> c \<and> c \<le> 57)"

definition skip_ws :: "nat \<Rightarrow> pystr \<Rightarrow> nat \<times> pystr" where
  "skip_ws i rest = (i + length (takeWhile is_ws rest), dropWhile is_ws rest)"

definition hex_digit :: "nat \<Rightarrow> nat option" where
  "hex_digit c =
     (if 48 \<le> c \<and> c \<le> 57 then Some (c - 48)
      else if 97 \<le> c \<and> c \<le> 102 then Some (c - 87)
      else if 65 \<le> c \<and> c \<le> 70 then Some (c - 55)
      else None)"

definition hex4 :: "pystr \<Rightarrow> nat option" where
  "hex4 r =
     (case map hex_digit (take 4 r) of
        [Some a, Some b, Some c, Some d] \<Rightarrow> Some (((a * 16 + b) * 16 + c) * 16 + d)
      | _ \<Rightarrow> None)"

definition unescape :: "nat \<Rightarrow> nat option" where
  \<open>unescape e =
     (if e = ch CHR ''"'' \<or> e = ch CHR 0x5C \<or> e = ch CHR ''/'' then Some e
      else if e = ch CHR ''b'' then Some 8
      else if e = ch CHR ''f'' then Some 12
      else if e = ch CHR ''n'' then Some 10
      else if e = ch CHR ''r'' then Some 13
      else if e = ch CHR ''t'' then Some 9
      else None)\<close>

text \<open>
  One escape sequence, read from the characters after the backslash: the character it
  stands for and the length of the sequence with its backslash, or what is wrong with it.
\<close>

datatype escape = Escape nat nat | BadEscape | BadUnicode nat | NoEscape

definition escape :: "pystr \<Rightarrow> escape" where
  "escape cs =
     (case cs of
        [] \<Rightarrow> NoEscape
      | e # es \<Rightarrow>
          if e \<noteq> ch CHR ''u'' then
            (case unescape e of None \<Rightarrow> BadEscape | Some x \<Rightarrow> Escape x 2)
          else
            (case (if 4 < length es then hex4 es else None) of
               None \<Rightarrow> BadUnicode 1
             | Some u \<Rightarrow>
                 if 0xD800 \<le> u \<and> u \<le> 0xDBFF \<and> 10 < length es \<and> take 2 (drop 4 es) = [92, 117] then
                   (case hex4 (drop 6 es) of
                      None \<Rightarrow> BadUnicode 7
                    | Some u2 \<Rightarrow>
                        if 0xDC00 \<le> u2 \<and> u2 \<le> 0xDFFF
                        then Escape (0x10000 + (u - 0xD800) * 1024 + (u2 - 0xDC00)) 12
                        else Escape u 6)
                 else Escape u 6))"

fun scanstring :: "nat \<Rightarrow> nat \<Rightarrow> pystr \<Rightarrow> pystr \<Rightarrow> pystr scan" where
  "scanstring begin i [] acc = Error (ustr ''Unterminated string starting at'') begin"
| \<open>scanstring begin i (c # cs) acc =
     (if c = ch CHR ''"'' then Done acc (i + 1) cs
      else if c = 92 then
        (case escape cs of
           Escape x k \<Rightarrow> scanstring begin (i + k) (drop (k - 1) cs) (acc @ [x])
         | BadEscape \<Rightarrow> Error (ustr ''Invalid '' @ [92] @ ustr ''escape'') i
         | BadUnicode k \<Rightarrow> Error (ustr ''Invalid '' @ [92] @ ustr ''uXXXX escape'') (i + k)
         | NoEscape \<Rightarrow> Error (ustr ''Unterminated string starting at'') begin)
      else if c \<le> 0x1F then Error (ustr ''Invalid control character at'') i
      else scanstring begin (i + 1) cs (acc @ [c]))\<close>

text \<open>The number pattern \<open>(-?(?:0|[1-9][0-9]*))(\.[0-9]+)?([eE][-+]?[0-9]+)?\<close>\<close>

definition int_of_digits :: "pystr \<Rightarrow> int" where
  "int_of_digits ds = foldl (\<lambda>a d. 10 * a + (int d - 48)) 0 ds"

definition match_number :: "nat \<Rightarrow> pystr \<Rightarrow> (pyval \<times> nat \<times> pystr) option" where
  "match_number i rest =
     (let sign = (if startswith rest (ustr ''-'') then ustr ''-'' else []);
          r1 = drop (length sign) rest
      in case r1 of
           [] \<Rightarrow> None
         | c # cs \<Rightarrow>
             if \<not> is_digit c then None
             else
               (let integer = (if c = ch CHR ''0'' then [c] else takeWhile is_digit r1);
                    r2 = drop (length integer) r1;
                    frac = (case r2 of
                              p # d # _ \<Rightarrow>
                                if p = ch CHR ''.'' \<and> is_digit d then p # takeWhile is_digit (tl r2)
                                else []
                            | _ \<Rightarrow> []);
                    r3 = drop (length frac) r2;
                    exp = (case r3 of
                             [] \<Rightarrow> []
                           | e # r4 \<Rightarrow>
                               if e = ch CHR ''e'' \<or> e = ch CHR ''E'' then
                                 (let sg = (case r4 of
                                              [] \<Rightarrow> []
                                            | x # _ \<Rightarrow> if x = ch CHR ''+'' \<or> x = ch CHR ''-'' then [x] else []);
                                      ds = takeWhile is_digit (drop (length sg) r4)
                                  in if ds = [] then [] else e # sg @ ds)
                               else []);
                    lexeme = sign @ integer @ frac @ exp
                in Some (if frac = [] \<and> exp = []
                         then PInt ((if sign = [] then 1 else - 1) * int_of_digits integer)
                         else PFloat lexeme,
                         i + length lexeme, drop (length lexeme) rest)))"

text \<open>\<open>d[k] = v\<close> on a dictionary: a key keeps the place of its first insertion.\<close>

fun dict_set :: "(pystr \<times> pyval) list \<Rightarrow> pystr \<Rightarrow> pyval \<Rightarrow> (pystr \<times> pyval) list" where
  "dict_set [] k v = [(k, v)]"
| "dict_set ((k', v') # d) k v = (if k' = k then (k, v) # d else (k', v') # dict_set d k v)"

definition next_is :: "pystr \<Rightarrow> char \<Rightarrow> bool" where
  "next_is rest c = (case rest of [] \<Rightarrow> False | x # _ \<Rightarrow> x = ch c)"

text \<open>The result of a failed scan, at another result type.\<close>

fun failed :: "'a scan \<Rightarrow> 'b scan" where
  "failed (Stop p) = Stop p"
| "failed (Error m p) = Error m p"
| "failed _ = OutOfFuel"

text \<open>
  An object member up to its value: the key, the colon and the white space around it.
\<close>

definition object_key :: "nat \<Rightarrow> pystr \<Rightarrow> pystr scan" where
  \<open>object_key idx rest =
     (if \<not> next_is rest CHR ''"'' then
        Error (ustr ''Expecting property name enclosed in double quotes'') idx
      else
        (case scanstring idx (idx + 1) (tl rest) [] of
           Done key j r \<Rightarrow>
             (case skip_ws j r of
                (j1, r1) \<Rightarrow>
                  if \<not> next_is r1 CHR '':'' then
                    Error (ustr ''Expecting '' @ [39] @ ustr '':'' @ [39] @ ustr '' delimiter'') j1
                  else (case skip_ws (j1 + 1) (tl r1) of (j2, r2) \<Rightarrow> Done key j2 r2))
         | other \<Rightarrow> other))\<close>

text \<open>
  After an element of an array or a member of an object: the closing bracket, or a comma and
  the white space after it, or neither.
\<close>

datatype delimiter = Closed nat pystr | More nat pystr | Missing nat

definition delimiter :: "char \<Rightarrow> nat \<Rightarrow> pystr \<Rightarrow> delimiter" where
  "delimiter close idx rest =
     (case skip_ws idx rest of
        (j, r) \<Rightarrow>
          if next_is r close then Closed (j + 1) (tl r)
          else if \<not> next_is r CHR '','' then Missing j
          else (case skip_ws (j + 1) (tl r) of (j1, r1) \<Rightarrow> More j1 r1))"

definition expecting_comma :: pystr where
  "expecting_comma = ustr ''Expecting '' @ [39] @ ustr '','' @ [39] @ ustr '' delimiter''"

text \<open>A value that is not a string, an object or an array.\<close>

definition scan_atom :: "nat \<Rightarrow> pystr \<Rightarrow> pyval scan" where
  "scan_atom idx rest =
     (if startswith rest (ustr ''null'') then Done PNone (idx + 4) (drop 4 rest)
      else if startswith rest (ustr ''true'') then Done (PBool True) (idx + 4) (drop 4 rest)
      else if startswith rest (ustr ''false'') then Done (PBool False) (idx + 5) (drop 5 rest)
      else
        (case match_number idx rest of
           Some (v, j, r) \<Rightarrow> Done v j r
         | None \<Rightarrow>
             if startswith rest (ustr ''NaN'') then Done (PFloat (ustr ''NaN'')) (idx + 3) (drop 3 rest)
             else if startswith rest (ustr ''Infinity'') then
               Done (PFloat (ustr ''Infinity'')) (idx + 8) (drop 8 rest)
             else if startswith rest (ustr ''-Infinity'') then
               Done (PFloat (ustr ''-Infinity'')) (idx + 9) (drop 9 rest)
             else Stop idx))"

fun scan_once :: "nat \<Rightarrow> nat \<Rightarrow> pystr \<Rightarrow> pyval scan"
  and parse_object :: "nat \<Rightarrow> nat \<Rightarrow> pystr \<Rightarrow> (pystr \<times> pyval) list \<Rightarrow> pyval scan"
  and parse_array :: "nat \<Rightarrow> nat \<Rightarrow> pystr \<Rightarrow> pyval list \<Rightarrow> pyval scan" where
  "scan_once 0 idx rest = OutOfFuel"
| \<open>scan_once (Suc n) idx rest =
     (if rest = [] then Stop idx
      else if next_is rest CHR ''"'' then
        (case scanstring idx (idx + 1) (tl rest) [] of
           Done s j r \<Rightarrow> Done (PStr s) j r
         | other \<Rightarrow> failed other)
      else if next_is rest CHR ''{'' then
        (case skip_ws (idx + 1) (tl rest) of
           (j, r) \<Rightarrow> if next_is r CHR ''}'' then Done (PDict []) (j + 1) (tl r)
                     else parse_object n j r [])
      else if next_is rest CHR ''['' then
        (case skip_ws (idx + 1) (tl rest) of
           (j, r) \<Rightarrow> if next_is r CHR '']'' then Done (PList []) (j + 1) (tl r)
                     else parse_array n j r [])
      else scan_atom idx rest)\<close>
| "parse_object 0 idx rest pairs = OutOfFuel"
| "parse_object (Suc n) idx rest pairs =
     (case object_key idx rest of
        Done key j r \<Rightarrow>
          (case scan_once n j r of
             Done v j1 r1 \<Rightarrow>
               (case delimiter CHR ''}'' j1 r1 of
                  Closed j2 r2 \<Rightarrow> Done (PDict (dict_set pairs key v)) j2 r2
                | More j2 r2 \<Rightarrow> parse_object n j2 r2 (dict_set pairs key v)
                | Missing p \<Rightarrow> Error expecting_comma p)
           | other \<Rightarrow> other)
      | other \<Rightarrow> failed other)"
| "parse_array 0 idx rest vals = OutOfFuel"
| "parse_array (Suc n) idx rest vals =
     (case scan_once n idx rest of
        Done v j r \<Rightarrow>
          (case delimiter CHR '']'' j r of
             Closed j1 r1 \<Rightarrow> Done (PList (vals @ [v])) j1 r1
           | More j1 r1 \<Rightarrow> parse_array n j1 r1 (vals @ [v])
           | Missing p \<Rightarrow> Error expecting_comma p)
      | other \<Rightarrow> other)"

text \<open>
  \<open>str(e)\<close> of a \<open>JSONDecodeError(msg, doc, pos)\<close>:
  \<open>'%s: line %d column %d (char %d)' % (msg, lineno, colno, pos)\<close>
\<close>

fun decimal :: "nat \<Rightarrow> pystr" where
  "decimal n = (if n < 10 then [48 + n] else decimal (n div 10) @ [48 + n mod 10])"

declare decimal.simps [simp del]

definition errmsg :: "pystr \<Rightarrow> pystr \<Rightarrow> nat \<Rightarrow> pystr" where
  "errmsg msg doc pos =
     (let before = take pos doc;
          lineno = length (filter (\<lambda>c. c = 10) before) + 1;
          colno = length (takeWhile (\<lambda>c. c \<noteq> 10) (rev before)) + 1
      in msg @ ustr '': line '' @ decimal lineno @ ustr '' column '' @ decimal colno
           @ ustr '' (char '' @ decimal pos @ ustr '')'')"

definition json_loads :: "pystr \<Rightarrow> pystr + pyval" where
  "json_loads s =
     (if startswith s [0xFEFF] then
        Inl (errmsg (ustr ''Unexpected UTF-8 BOM (decode using utf-8-sig)'') s 0)
      else
        (case skip_ws 0 s of
           (idx, r) \<Rightarrow>
             (case scan_once (Suc (length s + length s)) idx r of
                Done obj j r1 \<Rightarrow>
                  (case skip_ws j r1 of
                     (end, r2) \<Rightarrow>
                       if end \<noteq> length s then Inl (errmsg (ustr ''Extra data'') s end) else Inr obj)
              | Stop p \<Rightarrow> Inl (errmsg (ustr ''Expecting value'') s p)
              | Error m p \<Rightarrow> Inl (errmsg m s p)
              | OutOfFuel \<Rightarrow> Inl (ustr ''maximum recursion depth exceeded''))))"


section \<open>Evaluation and auxiliary facts\<close>

lemmas decoder_defs = json_loads_def skip_ws_def is_ws_def next_is_def startswith_def ustr_def
  match_number_def is_digit_def hex4_def hex_digit_def unescape_def errmsg_def
  int_of_digits_def decimal.simps Let_def escape_def object_key_def delimiter_def
  expecting_comma_def scan_atom_def

lemmas normalizer_defs = cleaned_def replace_def slice_def strip_def isspace_def NNBSP_def
  SPACE_def fence_json_def fence_plain_def fence_close_def parse_error_def



lemma replace_append: "replace (xs @ ys) a b = replace xs a b @ replace ys a b"
  by (simp add: replace_def)

lemma map_subst_eq:
  "a \<notin> set p \<Longrightarrow> b \<notin> set p \<Longrightarrow> (map (\<lambda>c. if c = a then b else c) xs = p) = (xs = p)"
proof (induction xs arbitrary: p)
  case Nil
  then show ?case by auto
next
  case (Cons x xs)
  then show ?case by (cases p) auto
qed

lemma startswith_replace:
  assumes "a \<notin> set p" "b \<notin> set p"
  shows "startswith (replace s a b) p = startswith s p"
proof -
  have "take (length p) (replace s a b) = map (\<lambda>c. if c = a then b else c) (take (length p) s)"
    by (simp add: replace_def take_map)
  then show ?thesis
    using map_subst_eq [OF assms] by (simp add: startswith_def)
qed

lemma startswith_replace_json:
  "startswith (replace s NNBSP SPACE) fence_json = startswith s fence_json"
  by (rule startswith_replace) (simp_all add: normalizer_defs ustr_def)

lemma startswith_replace_plain:
  "startswith (replace s NNBSP SPACE) fence_plain = startswith s fence_plain"
  by (rule startswith_replace) (simp_all add: normalizer_defs ustr_def)

lemma cleaned_unfenced:
  "\<not> startswith s fence_json \<Longrightarrow> \<not> startswith s fence_plain \<Longrightarrow>
   cleaned s = strip (replace s NNBSP SPACE)"
  by (simp add: cleaned_def startswith_replace_json startswith_replace_plain)

lemma cleaned_fenced_json:
  "cleaned (fence_json @ c @ fence_close) = strip (replace c NNBSP SPACE)"
  by (simp add: cleaned_def replace_append startswith_def slice_def fence_json_def fence_close_def
      fence_plain_def ustr_def replace_def NNBSP_def SPACE_def)

lemma cleaned_fenced_plain:
  "cleaned (fence_plain @ c @ fence_close) = strip (replace c NNBSP SPACE)"
  by (simp add: cleaned_def replace_append startswith_def slice_def fence_json_def fence_close_def
      fence_plain_def ustr_def replace_def NNBSP_def SPACE_def)

lemma parse_cleaned_eq:
  "cleaned s = cleaned t \<Longrightarrow>
   parse_openai_response loads (PStr s) = parse_openai_response loads (PStr t)"
  by (simp split: sum.splits)

lemma strip_padded:
  assumes l: "list_all isspace l" and r: "list_all isspace r"
    and d: "d \<noteq> []" and h: "\<not> isspace (hd d)" and t: "\<not> isspace (last d)"
  shows "strip (l @ d @ r) = d"
proof -
  have 1: "dropWhile isspace (l @ d @ r) = d @ r"
  proof -
    have "dropWhile isspace (l @ d @ r) = dropWhile isspace (d @ r)"
      using l by (simp add: dropWhile_append2 list_all_iff)
    also have "\<dots> = d @ r"
      using d h by (cases d) auto
    finally show ?thesis .
  qed
  have 2: "dropWhile isspace (rev (d @ r)) = rev d"
  proof -
    have "dropWhile isspace (rev r @ rev d) = dropWhile isspace (rev d)"
      using r by (intro dropWhile_append2) (simp add: list_all_iff)
    also have "\<dots> = rev d"
      using d t by (cases "rev d") (auto simp: last_rev [symmetric] simp del: last_rev)
    finally show ?thesis by simp
  qed
  show ?thesis
    by (simp only: strip_def 1 2 rev_rev_ident)
qed

lemma isspace_NNBSP: "isspace NNBSP" and isspace_SPACE: "isspace SPACE"
  by (simp_all add: isspace_def NNBSP_def SPACE_def)

lemma replace_all_space: "list_all isspace l \<Longrightarrow> list_all isspace (replace l NNBSP SPACE)"
  by (induction l) (auto simp: replace_def isspace_SPACE)

lemma replace_hd: "d \<noteq> [] \<Longrightarrow> \<not> isspace (hd d) \<Longrightarrow> hd (replace d NNBSP SPACE) = hd d"
  using isspace_NNBSP by (cases d) (auto simp: replace_def)

lemma replace_last: "d \<noteq> [] \<Longrightarrow> \<not> isspace (last d) \<Longrightarrow> last (replace d NNBSP SPACE) = last d"
  using isspace_NNBSP by (auto simp: replace_def last_map)

lemma replace_not_Nil: "d \<noteq> [] \<Longrightarrow> replace d a b \<noteq> []"
  by (simp add: replace_def)

lemma cleaned_padded:
  assumes "list_all isspace l" "list_all isspace r" "d \<noteq> []"
    "\<not> isspace (hd d)" "\<not> isspace (last d)"
    "\<not> startswith (l @ d @ r) fence_json" "\<not> startswith (l @ d @ r) fence_plain"
  shows "cleaned (l @ d @ r) = replace d NNBSP SPACE"
proof -
  have "cleaned (l @ d @ r) = strip (replace l NNBSP SPACE @ replace d NNBSP SPACE @ replace r NNBSP SPACE)"
    using assms(6,7) by (simp add: cleaned_unfenced replace_append)
  also have "\<dots> = replace d NNBSP SPACE"
    using assms(1-5)
    by (intro strip_padded) (simp_all add: replace_all_space replace_hd replace_last replace_not_Nil)
  finally show ?thesis .
qed

lemma replace_absent: "a \<notin> set s \<Longrightarrow> replace s a b = s"
  by (induction s) (auto simp: replace_def)

text \<open>The scenarios of the specification, evaluated with the decoder.\<close>

lemma fenced_record_scenario:
  \<open>parse_openai_response json_loads (PStr (ustr ''```json\<newline>{"a":1}\<newline>```'')) =
     ([], Inr (PDict [(ustr ''a'', PInt 1)]))\<close>
  by (simp add: normalizer_defs decoder_defs)

lemma padded_record_scenario:
  \<open>parse_openai_response json_loads (PStr (ustr ''  {"a":1}  '')) =
     ([], Inr (PDict [(ustr ''a'', PInt 1)]))\<close>
  by (simp add: normalizer_defs decoder_defs)



lemmas example_defs = example_env_def example_files_def analysis_path_def path_join_def
  startswith_def endswith_def ustr_def











lemma example_sources:
  "path_join (ustr ''uploads'') (ustr ''x.jpg'') = ustr ''uploads/x.jpg''"
  "path_join (ustr ''processed'') (ustr ''x.jpg'') = ustr ''processed/x.jpg''"
  "analysis_path (ustr ''x.jpg'') = ustr ''processed/x.jpg_analysis.json''"
  "example_files (ustr ''uploads/x.jpg'') = Some (Blob [255, 216, 255])"
  by (simp_all add: example_defs)


section \<open>The decoder reads every text to an end\<close>

text \<open>
  A scan that returns a value has read at least one character, and a counter above twice
  the length of the text is enough for any text.
\<close>

lemma skip_ws_length: "skip_ws i rest = (j, r) \<Longrightarrow> length r \<le> length rest"
  by (auto simp: skip_ws_def length_dropWhile_le)

lemma scanstring_consumes:
  "scanstring b i cs acc = Done s j r \<Longrightarrow> length r < length cs"
proof (induction b i cs acc rule: scanstring.induct)
  case (1 b i acc)
  then show ?case by simp
next
  case (2 b i c cs acc)
  then show ?case
    by (auto split: if_splits escape.splits simp: less_Suc_eq_le intro: le_trans less_imp_le
        dest!: meta_spec)
qed

lemma scanstring_not_stop: "scanstring b i cs acc \<noteq> Stop p"
  and scanstring_not_fuel: "scanstring b i cs acc \<noteq> OutOfFuel"
  by (induction b i cs acc rule: scanstring.induct; auto split: if_splits escape.splits)+

lemma next_is_Cons: "next_is rest c \<Longrightarrow> rest \<noteq> []"
  by (auto simp: next_is_def)

lemma length_tl_less: "rest \<noteq> [] \<Longrightarrow> length (tl rest) < length rest"
  by (cases rest) simp_all

lemma object_key_consumes:
  assumes "object_key idx rest = Done key j r"
  shows "length r < length rest"
proof -
  from assms have q: "next_is rest (CHR 0x22)"
    by (auto simp: object_key_def split: if_splits)
  from assms q obtain j0 r0 where s: "scanstring idx (idx + 1) (tl rest) [] = Done key j0 r0"
    by (auto simp: object_key_def split: scan.splits prod.splits if_splits)
  obtain j1 r1 where w1: "skip_ws j0 r0 = (j1, r1)"
    by (cases "skip_ws j0 r0")
  from assms q s w1 have c: "next_is r1 CHR '':''"
    by (auto simp: object_key_def split: if_splits)
  obtain j2 r2 where w2: "skip_ws (j1 + 1) (tl r1) = (j2, r2)"
    by (cases "skip_ws (j1 + 1) (tl r1)")
  from assms q s w1 c w2 have "r = r2"
    by (auto simp: object_key_def)
  moreover have "length r2 \<le> length (tl r1)"
    using w2 by (rule skip_ws_length)
  moreover have "length (tl r1) < length r1"
    using c by (intro length_tl_less next_is_Cons)
  moreover have "length r1 \<le> length r0"
    using w1 by (rule skip_ws_length)
  moreover have "length r0 < length (tl rest)"
    using s by (rule scanstring_consumes)
  moreover have "length (tl rest) < length rest"
    using q by (intro length_tl_less next_is_Cons)
  ultimately show ?thesis by simp
qed

lemma object_key_not_fuel: "object_key idx rest \<noteq> OutOfFuel"
  using scanstring_not_fuel
  by (auto simp: object_key_def split: if_splits scan.splits prod.splits)

lemma delimiter_consumes:
  "delimiter c j r = Closed j' r' \<Longrightarrow> length r' < length r"
  "delimiter c j r = More j' r' \<Longrightarrow> length r' < length r"
proof -
  obtain j1 r1 where w1: "skip_ws j r = (j1, r1)"
    by (cases "skip_ws j r")
  have l1: "length r1 \<le> length r"
    using w1 by (rule skip_ws_length)
  show "length r' < length r" if "delimiter c j r = Closed j' r'"
  proof -
    from that w1 have "next_is r1 c \<and> r' = tl r1"
      by (auto simp: delimiter_def split: if_splits prod.splits)
    then have "length r' < length r1"
      using length_tl_less [OF next_is_Cons, of r1 c] by simp
    with l1 show ?thesis by simp
  qed
  show "length r' < length r" if "delimiter c j r = More j' r'"
  proof -
    from that w1 have n: "next_is r1 CHR '',''" and s: "skip_ws (j1 + 1) (tl r1) = (j', r')"
      by (auto simp: delimiter_def split: if_splits prod.splits)
    have "length r' \<le> length (tl r1)"
      using s by (rule skip_ws_length)
    moreover have "length (tl r1) < length r1"
      using n by (intro length_tl_less next_is_Cons)
    ultimately show ?thesis using l1 by simp
  qed
qed

lemma match_number_consumes:
  assumes "match_number idx rest = Some (v, j, r)"
  shows "length r < length rest"
proof (cases "drop (length (if startswith rest (ustr ''-'') then ustr ''-'' else [])) rest")
  case Nil
  with assms show ?thesis
    by (simp add: match_number_def)
next
  case (Cons c cs)
  then have ne: "rest \<noteq> []"
    by auto
  show ?thesis
  proof (cases "is_digit c")
    case False
    with assms Cons show ?thesis
      by (simp add: match_number_def)
  next
    case True
    with assms Cons have "\<exists>n. r = drop (Suc n) rest"
      by (cases "c = 48") (auto simp: match_number_def Let_def drop_Suc)
    with ne show ?thesis
      by (cases rest) auto
  qed
qed

lemma startswith_length: "startswith rest p \<Longrightarrow> length p \<le> length rest"
  by (metis startswith_def length_take min.cobounded1)

lemma scan_atom_consumes:
  assumes "scan_atom idx rest = Done v j r"
  shows "length r < length rest"
proof -
  have k: "length (drop n rest) < length rest" if "startswith rest p" "length p = n" "0 < n" for p n
    using startswith_length [OF that(1)] that(2,3) by simp
  show ?thesis
  proof (cases "match_number idx rest")
    case None
    with assms show ?thesis
      by (auto simp: scan_atom_def ustr_def split: if_splits intro!: k)
  next
    case (Some a)
    then obtain v' j' r' where a: "match_number idx rest = Some (v', j', r')"
      by (cases a) auto
    from match_number_consumes [OF a] assms a show ?thesis
      by (auto simp: scan_atom_def ustr_def split: if_splits intro!: k)
  qed
qed

lemma scan_atom_not_fuel: "scan_atom idx rest \<noteq> OutOfFuel"
  by (auto simp: scan_atom_def split: if_splits option.splits)

lemma failed_not_Done: "failed x \<noteq> Done v j r"
  by (cases x) simp_all

lemma scan_once_Suc_consumes:
  assumes o: "\<And>idx rest pairs v j r. parse_object n idx rest pairs = Done v j r \<Longrightarrow> length r < length rest"
    and a: "\<And>idx rest vals v j r. parse_array n idx rest vals = Done v j r \<Longrightarrow> length r < length rest"
    and d: "scan_once (Suc n) idx rest = Done v j r"
  shows "length r < length rest"
proof -
  from d have ne: "rest \<noteq> []"
    by (auto split: if_splits)
  then have t: "length (tl rest) < length rest"
    by (rule length_tl_less)
  obtain j0 r0 where w: "skip_ws (idx + 1) (tl rest) = (j0, r0)"
    by (cases "skip_ws (idx + 1) (tl rest)")
  have l0: "length r0 \<le> length (tl rest)"
    using w by (rule skip_ws_length)
  consider (str) "next_is rest (CHR 0x22)"
    | (obj) "\<not> next_is rest (CHR 0x22)" "next_is rest CHR ''{''"
    | (arr) "\<not> next_is rest (CHR 0x22)" "\<not> next_is rest CHR ''{''" "next_is rest CHR ''[''"
    | (atom) "\<not> next_is rest (CHR 0x22)" "\<not> next_is rest CHR ''{''" "\<not> next_is rest CHR ''[''"
    by blast
  then show ?thesis
  proof cases
    case str
    with d ne obtain s where "scanstring idx (idx + 1) (tl rest) [] = Done s j r"
      by (auto split: scan.splits simp: failed_not_Done)
    from scanstring_consumes [OF this] t show ?thesis by simp
  next
    case obj
    show ?thesis
    proof (cases "next_is r0 CHR ''}''")
      case True
      with d ne obj w have "r = tl r0" by simp
      with length_tl_less [OF next_is_Cons [OF True]] l0 t show ?thesis by simp
    next
      case False
      with d ne obj w have "parse_object n j0 r0 [] = Done v j r" by simp
      from o [OF this] l0 t show ?thesis by simp
    qed
  next
    case arr
    show ?thesis
    proof (cases "next_is r0 CHR '']''")
      case True
      with d ne arr w have "r = tl r0" by simp
      with length_tl_less [OF next_is_Cons [OF True]] l0 t show ?thesis by simp
    next
      case False
      with d ne arr w have "parse_array n j0 r0 [] = Done v j r" by simp
      from a [OF this] l0 t show ?thesis by simp
    qed
  next
    case atom
    with d ne have "scan_atom idx rest = Done v j r" by simp
    then show ?thesis by (rule scan_atom_consumes)
  qed
qed

lemma parse_object_Suc_consumes:
  assumes s: "\<And>idx rest v j r. scan_once n idx rest = Done v j r \<Longrightarrow> length r < length rest"
    and o: "\<And>idx rest pairs v j r. parse_object n idx rest pairs = Done v j r \<Longrightarrow> length r < length rest"
    and d: "parse_object (Suc n) idx rest pairs = Done v j r"
  shows "length r < length rest"
proof -
  from d obtain key j0 r0 where k: "object_key idx rest = Done key j0 r0"
    by (cases "object_key idx rest") (auto simp: failed_not_Done)
  from d k obtain v1 j1 r1 where v: "scan_once n j0 r0 = Done v1 j1 r1"
    by (cases "scan_once n j0 r0") auto
  note l0 = object_key_consumes [OF k]
  note l1 = s [OF v]
  show ?thesis
  proof (cases "delimiter CHR ''}'' j1 r1")
    case (Closed j2 r2)
    with d k v have "r = r2" by simp
    with delimiter_consumes(1) [OF Closed] l0 l1 show ?thesis by simp
  next
    case (More j2 r2)
    with d k v have "parse_object n j2 r2 (dict_set pairs key v1) = Done v j r" by simp
    from o [OF this] delimiter_consumes(2) [OF More] l0 l1 show ?thesis by simp
  next
    case (Missing p)
    with d k v show ?thesis by simp
  qed
qed

lemma parse_array_Suc_consumes:
  assumes s: "\<And>idx rest v j r. scan_once n idx rest = Done v j r \<Longrightarrow> length r < length rest"
    and a: "\<And>idx rest vals v j r. parse_array n idx rest vals = Done v j r \<Longrightarrow> length r < length rest"
    and d: "parse_array (Suc n) idx rest vals = Done v j r"
  shows "length r < length rest"
proof -
  from d obtain v1 j1 r1 where v: "scan_once n idx rest = Done v1 j1 r1"
    by (cases "scan_once n idx rest") auto
  note l1 = s [OF v]
  show ?thesis
  proof (cases "delimiter CHR '']'' j1 r1")
    case (Closed j2 r2)
    with d v have "r = r2" by simp
    with delimiter_consumes(1) [OF Closed] l1 show ?thesis by simp
  next
    case (More j2 r2)
    with d v have "parse_array n j2 r2 (vals @ [v1]) = Done v j r" by simp
    from a [OF this] delimiter_consumes(2) [OF More] l1 show ?thesis by simp
  next
    case (Missing p)
    with d v show ?thesis by simp
  qed
qed

lemma scan_consumes:
  "(scan_once n idx rest = Done v j r \<longrightarrow> length r < length rest) \<and>
   (parse_object n idx rest pairs = Done v j r \<longrightarrow> length r < length rest) \<and>
   (parse_array n idx rest vals = Done v j r \<longrightarrow> length r < length rest)"
proof (induction n arbitrary: idx rest pairs vals v j r)
  case 0
  show ?case by simp
next
  case (Suc n)
  have s: "\<And>idx rest v j r. scan_once n idx rest = Done v j r \<Longrightarrow> length r < length rest"
    and o: "\<And>idx rest pairs v j r. parse_object n idx rest pairs = Done v j r \<Longrightarrow> length r < length rest"
    and a: "\<And>idx rest vals v j r. parse_array n idx rest vals = Done v j r \<Longrightarrow> length r < length rest"
    using Suc.IH by blast+
  show ?case
  proof (intro conjI impI)
    assume d: "scan_once (Suc n) idx rest = Done v j r"
    show "length r < length rest"
      by (rule scan_once_Suc_consumes [where n = n, OF _ _ d]) (erule o, erule a)
  next
    assume d: "parse_object (Suc n) idx rest pairs = Done v j r"
    show "length r < length rest"
      by (rule parse_object_Suc_consumes [where n = n, OF _ _ d]) (erule s, erule o)
  next
    assume d: "parse_array (Suc n) idx rest vals = Done v j r"
    show "length r < length rest"
      by (rule parse_array_Suc_consumes [where n = n, OF _ _ d]) (erule s, erule a)
  qed
qed

lemma failed_fuel: "failed x = OutOfFuel \<Longrightarrow> (\<exists>v j r. x = Done v j r) \<or> x = OutOfFuel"
  by (cases x) simp_all

lemma scan_once_consumes: "scan_once n idx rest = Done v j r \<Longrightarrow> length r < length rest"
  using scan_consumes by blast

lemma scan_once_Suc_fuel:
  assumes o: "\<And>idx rest pairs. 2 * length rest + 1 < n \<Longrightarrow> parse_object n idx rest pairs \<noteq> OutOfFuel"
    and a: "\<And>idx rest vals. 2 * length rest + 1 < n \<Longrightarrow> parse_array n idx rest vals \<noteq> OutOfFuel"
    and b: "2 * length rest < Suc n"
  shows "scan_once (Suc n) idx rest \<noteq> OutOfFuel"
proof (cases "rest = []")
  case True
  then show ?thesis by simp
next
  case ne: False
  then have t: "length (tl rest) < length rest"
    by (rule length_tl_less)
  obtain j0 r0 where w: "skip_ws (idx + 1) (tl rest) = (j0, r0)"
    by (cases "skip_ws (idx + 1) (tl rest)")
  have "length r0 \<le> length (tl rest)"
    using w by (rule skip_ws_length)
  with t b have b0: "2 * length r0 + 1 < n"
    by simp
  consider (str) "next_is rest (CHR 0x22)"
    | (obj) "\<not> next_is rest (CHR 0x22)" "next_is rest CHR ''{''"
    | (arr) "\<not> next_is rest (CHR 0x22)" "\<not> next_is rest CHR ''{''" "next_is rest CHR ''[''"
    | (atom) "\<not> next_is rest (CHR 0x22)" "\<not> next_is rest CHR ''{''" "\<not> next_is rest CHR ''[''"
    by blast
  then show ?thesis
  proof cases
    case str
    with ne show ?thesis
      using scanstring_not_fuel [of idx "idx + 1" "tl rest" "[]"]
      by (cases "scanstring idx (idx + 1) (tl rest) []") simp_all
  next
    case obj
    with ne w o [OF b0, of j0 "[]"] show ?thesis by simp
  next
    case arr
    with ne w a [OF b0, of j0 "[]"] show ?thesis by simp
  next
    case atom
    with ne scan_atom_not_fuel [of idx rest] show ?thesis by simp
  qed
qed

lemma parse_object_Suc_fuel:
  assumes s: "\<And>idx rest. 2 * length rest < n \<Longrightarrow> scan_once n idx rest \<noteq> OutOfFuel"
    and o: "\<And>idx rest pairs. 2 * length rest + 1 < n \<Longrightarrow> parse_object n idx rest pairs \<noteq> OutOfFuel"
    and b: "2 * length rest + 1 < Suc n"
  shows "parse_object (Suc n) idx rest pairs \<noteq> OutOfFuel"
proof (cases "object_key idx rest")
  case (Done key j0 r0)
  note l0 = object_key_consumes [OF Done]
  with b have "2 * length r0 < n" by simp
  note f = s [OF this, of j0]
  show ?thesis
  proof (cases "scan_once n j0 r0")
    case v: (Done v1 j1 r1)
    note l1 = scan_once_consumes [OF v]
    show ?thesis
    proof (cases "delimiter CHR ''}'' j1 r1")
      case (Closed j2 r2)
      with Done v show ?thesis by simp
    next
      case (More j2 r2)
      from delimiter_consumes(2) [OF More] l0 l1 b have "2 * length r2 + 1 < n" by simp
      from o [OF this, of j2 "dict_set pairs key v1"] Done v More show ?thesis by simp
    next
      case (Missing p)
      with Done v show ?thesis by simp
    qed
  next
    case (Stop p)
    with Done show ?thesis by simp
  next
    case (Error m p)
    with Done show ?thesis by simp
  next
    case OutOfFuel
    with f show ?thesis by simp
  qed
next
  case (Stop p)
  then show ?thesis by simp
next
  case (Error m p)
  then show ?thesis by simp
next
  case OutOfFuel
  with object_key_not_fuel show ?thesis by blast
qed

lemma parse_array_Suc_fuel:
  assumes s: "\<And>idx rest. 2 * length rest < n \<Longrightarrow> scan_once n idx rest \<noteq> OutOfFuel"
    and a: "\<And>idx rest vals. 2 * length rest + 1 < n \<Longrightarrow> parse_array n idx rest vals \<noteq> OutOfFuel"
    and b: "2 * length rest + 1 < Suc n"
  shows "parse_array (Suc n) idx rest vals \<noteq> OutOfFuel"
proof -
  from b have "2 * length rest < n" by simp
  note f = s [OF this, of idx]
  show ?thesis
  proof (cases "scan_once n idx rest")
    case v: (Done v1 j1 r1)
    note l1 = scan_once_consumes [OF v]
    show ?thesis
    proof (cases "delimiter CHR '']'' j1 r1")
      case (Closed j2 r2)
      with v show ?thesis by simp
    next
      case (More j2 r2)
      from delimiter_consumes(2) [OF More] l1 b have "2 * length r2 + 1 < n" by simp
      from a [OF this, of j2 "vals @ [v1]"] v More show ?thesis by simp
    next
      case (Missing p)
      with v show ?thesis by simp
    qed
  next
    case (Stop p)
    then show ?thesis by simp
  next
    case (Error m p)
    then show ?thesis by simp
  next
    case OutOfFuel
    with f show ?thesis by simp
  qed
qed

lemma scan_fuel:
  "(2 * length rest < n \<longrightarrow> scan_once n idx rest \<noteq> OutOfFuel) \<and>
   (2 * length rest + 1 < n \<longrightarrow> parse_object n idx rest pairs \<noteq> OutOfFuel) \<and>
   (2 * length rest + 1 < n \<longrightarrow> parse_array n idx rest vals \<noteq> OutOfFuel)"
proof (induction n arbitrary: idx rest pairs vals)
  case 0
  show ?case by simp
next
  case (Suc n)
  have s: "\<And>idx rest. 2 * length rest < n \<Longrightarrow> scan_once n idx rest \<noteq> OutOfFuel"
    and o: "\<And>idx rest pairs. 2 * length rest + 1 < n \<Longrightarrow> parse_object n idx rest pairs \<noteq> OutOfFuel"
    and a: "\<And>idx rest vals. 2 * length rest + 1 < n \<Longrightarrow> parse_array n idx rest vals \<noteq> OutOfFuel"
    using Suc.IH by blast+
  show ?case
  proof (intro conjI impI)
    assume b: "2 * length rest < Suc n"
    show "scan_once (Suc n) idx rest \<noteq> OutOfFuel"
      by (rule scan_once_Suc_fuel [where n = n, OF _ _ b]) (erule o, erule a)
  next
    assume b: "2 * length rest + 1 < Suc n"
    show "parse_object (Suc n) idx rest pairs \<noteq> OutOfFuel"
      by (rule parse_object_Suc_fuel [where n = n, OF _ _ b]) (erule s, erule o)
  next
    assume b: "2 * length rest + 1 < Suc n"
    show "parse_array (Suc n) idx rest vals \<noteq> OutOfFuel"
      by (rule parse_array_Suc_fuel [where n = n, OF _ _ b]) (erule s, erule a)
  qed
qed

text \<open>
  So the counter of \<open>json_loads\<close> is never used up: the last branch of its definition is
  never taken.
\<close>

lemma json_loads_counter:
  "skip_ws 0 s = (idx, r) \<Longrightarrow> scan_once (Suc (length s + length s)) idx r \<noteq> OutOfFuel"
proof -
  assume "skip_ws 0 s = (idx, r)"
  then have "length r \<le> length s"
    by (rule skip_ws_length)
  then have "2 * length r < Suc (length s + length s)"
    by simp
  with scan_fuel [of r "Suc (length s + length s)" idx] show ?thesis
    by blast
qed

section \<open>The normalizer: claims\<close>

text \<open>
  Claim C6. A dictionary is returned as it is, nothing is printed, and normalizing the
  returned value again gives the same result.
\<close>

theorem structured_value_passes_through:
  "parse_openai_response loads (PDict d) = ([], Inr (PDict d)) \<and>
   (\<forall>y. snd (parse_openai_response loads (PDict d)) = Inr y \<longrightarrow>
      y = PDict d \<and> parse_openai_response loads y = parse_openai_response loads (PDict d))"
  by simp

theorem structured_value_passes_through_witness:
  "parse_openai_response json_loads (PDict [(ustr ''a'', PInt 1)]) =
     ([], Inr (PDict [(ustr ''a'', PInt 1)])) \<and>
   snd (parse_openai_response json_loads (PDict [(ustr ''a'', PInt 1)])) =
     Inr (PDict [(ustr ''a'', PInt 1)])"
  using structured_value_passes_through [of json_loads "[(ustr ''a'', PInt 1)]"] by simp




text \<open>
  Claim C2, as amended. A text made of an opening fence line (tagged or untagged), a content
  and a closing fence on a line of its own normalizes as the content does, provided the
  content does not itself start with an opening fence line; and the scenario of the
  specification gives the record.
\<close>

theorem fence_stripped:
  \<open>(\<not> startswith c fence_json \<and> \<not> startswith c fence_plain \<longrightarrow>
      parse_openai_response loads (PStr (fence_json @ c @ fence_close)) =
        parse_openai_response loads (PStr c) \<and>
      parse_openai_response loads (PStr (fence_plain @ c @ fence_close)) =
        parse_openai_response loads (PStr c)) \<and>
   parse_openai_response json_loads (PStr (ustr ''```json\<newline>{"a":1}\<newline>```'')) =
     ([], Inr (PDict [(ustr ''a'', PInt 1)]))\<close>
proof -
  have "parse_openai_response loads (PStr (fence_json @ c @ fence_close)) =
          parse_openai_response loads (PStr c) \<and>
        parse_openai_response loads (PStr (fence_plain @ c @ fence_close)) =
          parse_openai_response loads (PStr c)"
    if a: "\<not> startswith c fence_json" and b: "\<not> startswith c fence_plain"
  proof -
    have u: "cleaned c = strip (replace c NNBSP SPACE)"
      using a b by (rule cleaned_unfenced)
    have "cleaned (fence_json @ c @ fence_close) = cleaned c"
      by (simp only: cleaned_fenced_json u)
    moreover have "cleaned (fence_plain @ c @ fence_close) = cleaned c"
      by (simp only: cleaned_fenced_plain u)
    ultimately show ?thesis
      by (blast intro: parse_cleaned_eq)
  qed
  then show ?thesis
    using fenced_record_scenario by blast
qed

theorem fence_stripped_witness:
  \<open>\<not> startswith (ustr ''{"a":1}'') fence_json \<and> \<not> startswith (ustr ''{"a":1}'') fence_plain \<and>
   parse_openai_response json_loads (PStr (fence_json @ ustr ''{"a":1}'' @ fence_close)) =
     parse_openai_response json_loads (PStr (ustr ''{"a":1}'')) \<and>
   parse_openai_response json_loads (PStr (fence_plain @ ustr ''{"a":1}'' @ fence_close)) =
     parse_openai_response json_loads (PStr (ustr ''{"a":1}'')) \<and>
   parse_openai_response json_loads (PStr (ustr ''{"a":1}'')) = ([], Inr (PDict [(ustr ''a'', PInt 1)]))\<close>
proof -
  have h: \<open>\<not> startswith (ustr ''{"a":1}'') fence_json \<and> \<not> startswith (ustr ''{"a":1}'') fence_plain\<close>
    by (simp add: startswith_def fence_json_def fence_plain_def ustr_def)
  have v: \<open>parse_openai_response json_loads (PStr (ustr ''{"a":1}'')) = ([], Inr (PDict [(ustr ''a'', PInt 1)]))\<close>
    by (simp add: normalizer_defs decoder_defs)
  show ?thesis
    using h v fence_stripped [of \<open>ustr ''{"a":1}''\<close> json_loads] by blast
qed

text \<open>
  Claim C2 as stated fails when the content is itself fenced: only one fence is removed, so
  the wrapped text fails to parse while its content normalizes to 1.
\<close>

theorem nested_fence_counterexample:
  \<open>parse_openai_response json_loads
     (PStr (fence_json @ ustr ''```\<newline>1\<newline>```'' @ fence_close)) =
     ([PStr (ustr ''```\<newline>1\<newline>```'')],
      Inl (ustr ''Error parsing JSON response: Expecting value: line 1 column 1 (char 0)'')) \<and>
   parse_openai_response json_loads (PStr (ustr ''```\<newline>1\<newline>```'')) = ([], Inr (PInt 1))\<close>
  by (simp add: normalizer_defs decoder_defs)




text \<open>
  Claim C8, as amended. For an unfenced text made of white space, a document that neither
  starts nor ends with white space, and white space, the decoder is called on the document
  with every U+202F replaced by a space, and its value is returned; when the document holds
  no U+202F that is the parse of the trimmed text. The scenario of the specification gives
  the record.
\<close>

theorem padded_text_trimmed:
  \<open>(list_all isspace l \<and> list_all isspace r \<and> doc \<noteq> [] \<and> \<not> isspace (hd doc) \<and> \<not> isspace (last doc)
      \<and> \<not> startswith (l @ doc @ r) fence_json \<and> \<not> startswith (l @ doc @ r) fence_plain \<longrightarrow>
      cleaned (l @ doc @ r) = replace doc NNBSP SPACE \<and>
      (\<forall>v. loads (replace doc NNBSP SPACE) = Inr v \<longrightarrow>
         parse_openai_response loads (PStr (l @ doc @ r)) = ([], Inr v)) \<and>
      (\<forall>v. NNBSP \<notin> set doc \<and> loads doc = Inr v \<longrightarrow>
         parse_openai_response loads (PStr (l @ doc @ r)) = ([], Inr v))) \<and>
   parse_openai_response json_loads (PStr (ustr ''  {"a":1}  '')) =
     ([], Inr (PDict [(ustr ''a'', PInt 1)]))\<close>
proof -
  have "cleaned (l @ doc @ r) = replace doc NNBSP SPACE \<and>
      (\<forall>v. loads (replace doc NNBSP SPACE) = Inr v \<longrightarrow>
         parse_openai_response loads (PStr (l @ doc @ r)) = ([], Inr v)) \<and>
      (\<forall>v. NNBSP \<notin> set doc \<and> loads doc = Inr v \<longrightarrow>
         parse_openai_response loads (PStr (l @ doc @ r)) = ([], Inr v))"
    if a: "list_all isspace l \<and> list_all isspace r \<and> doc \<noteq> [] \<and> \<not> isspace (hd doc) \<and> \<not> isspace (last doc)
      \<and> \<not> startswith (l @ doc @ r) fence_json \<and> \<not> startswith (l @ doc @ r) fence_plain"
  proof -
    have c: "cleaned (l @ doc @ r) = replace doc NNBSP SPACE"
      using a by (intro cleaned_padded) simp_all
    show ?thesis
      by (simp add: c replace_absent)
  qed
  then show ?thesis
    using padded_record_scenario by blast
qed

theorem padded_text_trimmed_witness:
  \<open>list_all isspace (ustr ''  '') \<and> ustr ''{"a":1}'' \<noteq> [] \<and>
   \<not> isspace (hd (ustr ''{"a":1}'')) \<and> \<not> isspace (last (ustr ''{"a":1}'')) \<and>
   \<not> startswith (ustr ''  '' @ ustr ''{"a":1}'' @ ustr ''  '') fence_json \<and>
   \<not> startswith (ustr ''  '' @ ustr ''{"a":1}'' @ ustr ''  '') fence_plain \<and>
   NNBSP \<notin> set (ustr ''{"a":1}'') \<and>
   json_loads (ustr ''{"a":1}'') = Inr (PDict [(ustr ''a'', PInt 1)]) \<and>
   cleaned (ustr ''  '' @ ustr ''{"a":1}'' @ ustr ''  '') = replace (ustr ''{"a":1}'') NNBSP SPACE \<and>
   parse_openai_response json_loads (PStr (ustr ''  '' @ ustr ''{"a":1}'' @ ustr ''  '')) =
     ([], Inr (PDict [(ustr ''a'', PInt 1)]))\<close>
proof -
  have h: \<open>list_all isspace (ustr ''  '') \<and> list_all isspace (ustr ''  '') \<and> ustr ''{"a":1}'' \<noteq> [] \<and>
   \<not> isspace (hd (ustr ''{"a":1}'')) \<and> \<not> isspace (last (ustr ''{"a":1}'')) \<and>
   \<not> startswith (ustr ''  '' @ ustr ''{"a":1}'' @ ustr ''  '') fence_json \<and>
   \<not> startswith (ustr ''  '' @ ustr ''{"a":1}'' @ ustr ''  '') fence_plain\<close>
    by (simp add: isspace_def startswith_def fence_json_def fence_plain_def ustr_def)
  have n: \<open>NNBSP \<notin> set (ustr ''{"a":1}'') \<and> json_loads (ustr ''{"a":1}'') = Inr (PDict [(ustr ''a'', PInt 1)])\<close>
    by (simp add: NNBSP_def decoder_defs)
  show ?thesis
    using h n padded_text_trimmed [of \<open>ustr ''  ''\<close> \<open>ustr ''  ''\<close> \<open>ustr ''{"a":1}''\<close> json_loads]
    by blast
qed

text \<open>
  Claim C8 as stated says the result is the parse of the trimmed text. For a document that
  is a string holding U+202F, the parse of the trimmed text holds U+202F and the result of
  the normalizer holds a space.
\<close>

theorem narrow_space_in_document_counterexample:
  \<open>json_loads (strip (ustr '' "a'' @ [NNBSP] @ ustr ''b" '')) = Inr (PStr (ustr ''a'' @ [NNBSP] @ ustr ''b'')) \<and>
   parse_openai_response json_loads (PStr (ustr '' "a'' @ [NNBSP] @ ustr ''b" '')) =
     ([], Inr (PStr (ustr ''a b'')))\<close>
  by (simp add: normalizer_defs decoder_defs)

text \<open>
  Claim C10. Whatever value the decoder returns for the cleaned text is returned, record or
  not: the texts \<open>42\<close>, \<open>[1,2]\<close>, \<open>"hello"\<close> and \<open>null\<close> normalize to an integer, a
  list, a string and \<open>None\<close>.
\<close>

theorem parse_success_is_the_only_check:
  \<open>(loads (cleaned s) = Inr v \<longrightarrow> parse_openai_response loads (PStr s) = ([], Inr v)) \<and>
   parse_openai_response json_loads (PStr (ustr ''42'')) = ([], Inr (PInt 42)) \<and>
   parse_openai_response json_loads (PStr (ustr ''[1,2]'')) = ([], Inr (PList [PInt 1, PInt 2])) \<and>
   parse_openai_response json_loads (PStr (ustr ''"hello"'')) = ([], Inr (PStr (ustr ''hello''))) \<and>
   parse_openai_response json_loads (PStr (ustr ''null'')) = ([], Inr PNone)\<close>
  by (simp add: normalizer_defs decoder_defs)

theorem parse_success_is_the_only_check_witness:
  \<open>json_loads (cleaned (ustr ''[1,2]'')) = Inr (PList [PInt 1, PInt 2]) \<and>
   parse_openai_response json_loads (PStr (ustr ''[1,2]'')) = ([], Inr (PList [PInt 1, PInt 2]))\<close>
proof -
  have h: \<open>json_loads (cleaned (ustr ''[1,2]'')) = Inr (PList [PInt 1, PInt 2])\<close>
    by (simp add: normalizer_defs decoder_defs)
  show ?thesis
    using h parse_success_is_the_only_check [of json_loads \<open>ustr ''[1,2]''\<close> \<open>PList [PInt 1, PInt 2]\<close>]
    by blast
qed

section \<open>The analysis job: claims\<close>










end
